theory Spec2Isabelle
  imports Complex_Main
begin

section \<open>Values of the host language\<close>

text \<open>
  The program is TypeScript. A string is modelled as a \<^typ>\<open>string\<close>, one \<^typ>\<open>char\<close> per
  code unit (the code units below 256). A number is one of the four kinds of value a
  double can be; the finite ones are read as reals, so that the two zeros coincide.
\<close>

datatype jsnum = NaN | Fin real | PosInf | NegInf

text \<open>The operand test of \<open>||\<close> on a number: \<open>NaN\<close> and zero are falsy.\<close>

definition num_truthy :: "jsnum \<Rightarrow> bool" where
  "num_truthy n = (n \<noteq> NaN \<and> n \<noteq> Fin 0)"

text \<open>\<open>n || 0\<close>\<close>

definition or_zero :: "jsnum \<Rightarrow> jsnum" where
  "or_zero n = (if num_truthy n then n else Fin 0)"

text \<open>\<open>s || d\<close> for a string that may be \<open>undefined\<close>: \<open>undefined\<close> and \<open>""\<close> are falsy.\<close>

definition or_default :: "string option \<Rightarrow> string \<Rightarrow> string" where
  "or_default s d = (case s of None \<Rightarrow> d | Some v \<Rightarrow> if v = [] then d else v)"

text \<open>\<open>xs[i]\<close> on an array: \<open>undefined\<close> out of range.\<close>

definition nth_opt :: "'a list \<Rightarrow> nat \<Rightarrow> 'a option" where
  "nth_opt xs i = (if i < length xs then Some (xs ! i) else None)"

subsection \<open>String builtins\<close>

text \<open>\<open>s.split(c)\<close> for a one-character separator: never the empty array.\<close>

fun split_on :: "char \<Rightarrow> string \<Rightarrow> string list" where
  "split_on c [] = [[]]"
| "split_on c (a # as) =
     (if a = c then [] # split_on c as
      else (case split_on c as of [] \<Rightarrow> [[a]] | w # ws \<Rightarrow> (a # w) # ws))"

text \<open>
  White space and line terminators of ECMAScript among the code units below 256:
  TAB, LF, VT, FF, CR, SP and NBSP.
\<close>

definition is_ws :: "char \<Rightarrow> bool" where
  "is_ws c = (of_char c \<in> {9, 10, 11, 12, 13, 32, 160 :: nat})"

definition trim :: "string \<Rightarrow> string" where
  "trim s = rev (dropWhile is_ws (rev (dropWhile is_ws s)))"

subsection \<open>Plain objects used as dictionaries\<close>

text \<open>
  \<open>Record<string, T>\<close> values are created by the literal \<open>{}\<close>, so they inherit from
  \<open>Object.prototype\<close>. A read \<open>obj[k]\<close> of a key that is not an own property finds the
  member of that name on the prototype, if there is one; all of them are functions,
  but \<open>__proto__\<close>, which reads as the prototype object: all truthy.
\<close>

definition object_prototype_keys :: "string list" where
  "object_prototype_keys =
     [''constructor'', ''__defineGetter__'', ''__defineSetter__'', ''hasOwnProperty'',
      ''__lookupGetter__'', ''__lookupSetter__'', ''isPrototypeOf'',
      ''propertyIsEnumerable'', ''toString'', ''valueOf'', ''__proto__'',
      ''toLocaleString'']"

datatype jsval = Undefined | Str string | Inherited string

definition truthy :: "jsval \<Rightarrow> bool" where
  "truthy v = (case v of Undefined \<Rightarrow> False | Str s \<Rightarrow> s \<noteq> [] | Inherited k \<Rightarrow> True)"

text \<open>Own properties are kept in creation order.\<close>

definition get_prop :: "(string \<times> string) list \<Rightarrow> string \<Rightarrow> jsval" where
  "get_prop obj k =
     (case map_of obj k of
        Some v \<Rightarrow> Str v
      | None \<Rightarrow> if k \<in> set object_prototype_keys then Inherited k else Undefined)"

text \<open>
  \<open>obj[k] = v\<close> for a string \<open>v\<close>: the \<open>__proto__\<close> setter ignores a value that is not
  an object; the other prototype members are writable data properties, so the
  assignment creates an own property.
\<close>

fun assoc_set :: "('k \<times> 'v) list \<Rightarrow> 'k \<Rightarrow> 'v \<Rightarrow> ('k \<times> 'v) list" where
  "assoc_set [] k v = [(k, v)]"
| "assoc_set ((k', v') # kvs) k v =
     (if k' = k then (k, v) # kvs else (k', v') # assoc_set kvs k v)"

definition set_prop :: "(string \<times> string) list \<Rightarrow> string \<Rightarrow> string \<Rightarrow> (string \<times> string) list" where
  "set_prop obj k v = (if k = ''__proto__'' then obj else assoc_set obj k v)"

section \<open>Data model (src/types.ts)\<close>

datatype PointShape = Circle | Square | Diamond | Cross

record CategoryStyle =
  color :: string
  shape :: PointShape
  visible :: bool

text \<open>
  \<open>DataPoint.color\<close> is declared a string; what \<open>processCSV\<close> stores there is the
  value read from its colour dictionary, whatever that is.
\<close>

record DataPoint =
  x :: jsnum
  y :: jsnum
  z :: jsnum
  label :: string
  metadata :: string
  color :: jsval

section \<open>Ingestion (FileUpload.processCSV)\<close>

text \<open>The palette declared inside \<open>processCSV\<close>.\<close>

definition upload_colorPalette :: "string list" where
  "upload_colorPalette =
     [''#60a5fa'', ''#f87171'', ''#34d399'', ''#fbbf24'', ''#a78bfa'',
      ''#f472b6'', ''#2dd4bf'', ''#fb923c'', ''#818cf8'', ''#94a3b8'']"

record csv_state =
  categoryColors :: "(string \<times> string) list"
  colorIndex :: nat

text \<open>
  \<open>parseFloat\<close> is the builtin, a parameter \<open>pf\<close> here. \<open>parseFloat(undefined)\<close>
  parses the text \<open>undefined\<close>, which has no numeric prefix.
\<close>

definition parseFloat_col :: "(string \<Rightarrow> jsnum) \<Rightarrow> string option \<Rightarrow> jsnum" where
  "parseFloat_col pf c = (case c of None \<Rightarrow> NaN | Some s \<Rightarrow> pf s)"

text \<open>The callback of \<open>lines.map\<close>, with the two captured variables as state.\<close>

definition parse_line :: "(string \<Rightarrow> jsnum) \<Rightarrow> csv_state \<Rightarrow> string \<Rightarrow> DataPoint \<times> csv_state" where
  "parse_line pf st line =
     (let cols = map trim (split_on CHR '','' line);
          px = or_zero (parseFloat_col pf (nth_opt cols 0));
          py = or_zero (parseFloat_col pf (nth_opt cols 1));
          pz = or_zero (parseFloat_col pf (nth_opt cols 2));
          lbl = or_default (nth_opt cols 3) ''Unlabeled'';
          meta = or_default (nth_opt cols 4) [];
          st' = (if \<not> truthy (get_prop (categoryColors st) lbl)
                 then st\<lparr>categoryColors :=
                           set_prop (categoryColors st) lbl
                             (upload_colorPalette ! (colorIndex st mod length upload_colorPalette)),
                         colorIndex := colorIndex st + 1\<rparr>
                 else st)
      in (\<lparr>x = px, y = py, z = pz, label = lbl, metadata = meta,
           color = get_prop (categoryColors st') lbl\<rparr>, st'))"

fun map_lines :: "(string \<Rightarrow> jsnum) \<Rightarrow> csv_state \<Rightarrow> string list \<Rightarrow> DataPoint list" where
  "map_lines pf st [] = []"
| "map_lines pf st (l # ls) = (case parse_line pf st l of (p, st') \<Rightarrow> p # map_lines pf st' ls)"

definition csv_lines :: "string \<Rightarrow> string list" where
  "csv_lines text = filter (\<lambda>line. length (trim line) > 0) (split_on (CHR 0x0A) text)"

definition processCSV :: "(string \<Rightarrow> jsnum) \<Rightarrow> string \<Rightarrow> DataPoint list" where
  "processCSV pf text =
     map_lines pf \<lparr>categoryColors = [], colorIndex = 0\<rparr> (csv_lines text)"

section \<open>Default styles (App.handleDataLoaded)\<close>

text \<open>A \<open>Set\<close> keeps its members in insertion order; \<open>add\<close> ignores a member it has.\<close>

definition set_add :: "'a list \<Rightarrow> 'a \<Rightarrow> 'a list" where
  "set_add s v = (if v \<in> set s then s else s @ [v])"

definition new_Set :: "'a list \<Rightarrow> 'a list" where
  "new_Set vs = foldl set_add [] vs"

text \<open>
  The style registry is a plain object whose values are objects. The assignment
  \<open>styles[cat] = st\<close> with \<open>cat = "__proto__"\<close> runs the setter inherited from
  \<open>Object.prototype\<close>, which makes \<open>st\<close> the prototype of \<open>styles\<close>; reading
  \<open>styles["__proto__"]\<close> then returns \<open>st\<close>.
\<close>

record style_registry =
  own :: "(string \<times> CategoryStyle) list"
  proto :: "CategoryStyle option"

datatype style_read = StyleObj CategoryStyle | OtherValue | Missing

definition get_style :: "style_registry \<Rightarrow> string \<Rightarrow> style_read" where
  "get_style reg k =
     (if k = ''__proto__''
      then (case proto reg of Some st \<Rightarrow> StyleObj st | None \<Rightarrow> OtherValue)
      else (case map_of (own reg) k of
              Some st \<Rightarrow> StyleObj st
            | None \<Rightarrow>
                if k \<in> set object_prototype_keys \<or>
                   (proto reg \<noteq> None \<and> k \<in> {''color'', ''shape'', ''visible''})
                then OtherValue else Missing))"

definition set_style :: "style_registry \<Rightarrow> string \<Rightarrow> CategoryStyle \<Rightarrow> style_registry" where
  "set_style reg k st =
     (if k = ''__proto__'' then reg\<lparr>proto := Some st\<rparr>
      else reg\<lparr>own := assoc_set (own reg) k st\<rparr>)"

text \<open>\<open>categoryStyles[cat].color\<close>, where the read gives a style.\<close>

definition style_color :: "style_registry \<Rightarrow> string \<Rightarrow> string option" where
  "style_color reg k =
     (case get_style reg k of StyleObj st \<Rightarrow> Some (CategoryStyle.color st) | _ \<Rightarrow> None)"

record VisualizationState =
  points :: "DataPoint list"
  categories :: "string list"
  categoryStyles :: style_registry
  showAxes :: bool
  isLoading :: bool
  error :: "string option"

text \<open>The palette declared inside \<open>handleDataLoaded\<close>.\<close>

definition app_colorPalette :: "string list" where
  "app_colorPalette =
     [''#60a5fa'', ''#f87171'', ''#34d399'', ''#fbbf24'', ''#a78bfa'',
      ''#f472b6'', ''#2dd4bf'', ''#fb923c'', ''#818cf8'', ''#94a3b8'']"

text \<open>\<open>categories.forEach((cat, i) => ...)\<close>, from index \<open>i\<close> on.\<close>

fun assign_styles :: "style_registry \<Rightarrow> nat \<Rightarrow> string list \<Rightarrow> style_registry" where
  "assign_styles styles i [] = styles"
| "assign_styles styles i (cat # cats) =
     assign_styles
       (set_style styles cat
          \<lparr>CategoryStyle.color = app_colorPalette ! (i mod length app_colorPalette),
           shape = Circle, visible = True\<rparr>)
       (Suc i) cats"

definition handleDataLoaded :: "DataPoint list \<Rightarrow> VisualizationState \<Rightarrow> VisualizationState" where
  "handleDataLoaded pts prev =
     (let cats = new_Set (map label pts);
          styles = assign_styles \<lparr>own = [], proto = None\<rparr> 0 cats
      in prev\<lparr>points := pts, categories := cats, categoryStyles := styles,
              isLoading := False, error := None\<rparr>)"

definition initial_state :: VisualizationState where
  "initial_state =
     \<lparr>points = [], categories = [], categoryStyles = \<lparr>own = [], proto = None\<rparr>,
      showAxes = True, isLoading = False, error = None\<rparr>"

text \<open>What loading a file does: \<open>processCSV\<close> hands its points to \<open>onDataLoaded\<close>.\<close>

definition load_text :: "(string \<Rightarrow> jsnum) \<Rightarrow> string \<Rightarrow> VisualizationState \<Rightarrow> VisualizationState" where
  "load_text pf text prev = handleDataLoaded (processCSV pf text) prev"

section \<open>Grouping into batches (DataVisualizer.pointsByCategory)\<close>

datatype js_error = TypeError | SecurityError

text \<open>
  The callback of \<open>points.forEach\<close>. An own property of \<open>groups\<close> is an array, which is
  truthy. A label that names a member of \<open>Object.prototype\<close> reads as that member:
  truthy, so no array is created, and without a \<open>push\<close> method, so the call throws.
\<close>

definition group_point ::
  "(string \<times> DataPoint list) list \<Rightarrow> DataPoint \<Rightarrow> js_error + (string \<times> DataPoint list) list" where
  "group_point groups p =
     (let groups' = (if map_of groups (label p) = None \<and> label p \<notin> set object_prototype_keys
                     then assoc_set groups (label p) [] else groups)
      in case map_of groups' (label p) of
           Some arr \<Rightarrow> Inr (assoc_set groups' (label p) (arr @ [p]))
         | None \<Rightarrow> Inl TypeError)"

fun group_points ::
  "(string \<times> DataPoint list) list \<Rightarrow> DataPoint list \<Rightarrow> js_error + (string \<times> DataPoint list) list" where
  "group_points groups [] = Inr groups"
| "group_points groups (p # ps) =
     (case group_point groups p of Inl e \<Rightarrow> Inl e | Inr groups' \<Rightarrow> group_points groups' ps)"

definition pointsByCategory :: "DataPoint list \<Rightarrow> js_error + (string \<times> DataPoint list) list" where
  "pointsByCategory pts = group_points [] pts"

text \<open>
  \<open>Object.entries\<close> lists the own properties whose key is an array index (the canonical
  decimal text of an integer below \<open>2^32 - 1\<close>) first, in ascending numeric order, and
  the others after them in creation order.
\<close>

definition digit_value :: "string \<Rightarrow> int" where
  "digit_value s = foldl (\<lambda>n c. 10 * n + (of_char c - 48)) 0 s"

definition is_digit :: "char \<Rightarrow> bool" where
  "is_digit c = (48 \<le> (of_char c :: int) \<and> (of_char c :: int) \<le> 57)"

definition is_array_index :: "string \<Rightarrow> bool" where
  "is_array_index s =
     (s \<noteq> [] \<and> list_all is_digit s \<and> (length s = 1 \<or> hd s \<noteq> CHR ''0'') \<and>
      digit_value s < 4294967295)"

definition Object_entries :: "(string \<times> 'v) list \<Rightarrow> (string \<times> 'v) list" where
  "Object_entries obj =
     sort_key (\<lambda>kv. digit_value (fst kv)) (filter (\<lambda>kv. is_array_index (fst kv)) obj) @
     filter (\<lambda>kv. \<not> is_array_index (fst kv)) obj"

text \<open>The labels of the batches, in the order in which the \<open>CategoryPoints\<close> are created.\<close>

definition batch_order :: "DataPoint list \<Rightarrow> js_error + string list" where
  "batch_order pts =
     (case pointsByCategory pts of Inl e \<Rightarrow> Inl e | Inr groups \<Rightarrow> Inr (map fst (Object_entries groups)))"

section \<open>The visualizer's state (DataVisualizer)\<close>

text \<open>
  The three \<open>useState\<close> cells and the \<open>hoverTimeout\<close> ref of the component, together
  with what the host keeps for it: the pending timers, the next timer handle (handles
  are positive integers), a clock in milliseconds, and the downloads started so far.
\<close>

datatype timer_action = ClearHover | ResetTrigger

datatype timer = Timer (timer_id: nat) (deadline: nat) (action: timer_action)

record download =
  file_name :: string
  href :: string

record vis_state =
  hoveredPoint :: "DataPoint option"
  selectedPoint :: "DataPoint option"
  screenshotTrigger :: bool
  hoverTimeout :: "nat option"
  timers :: "timer list"
  next_timer :: nat
  now :: nat
  downloads :: "download list"

definition initial_vis :: vis_state where
  "initial_vis =
     \<lparr>hoveredPoint = None, selectedPoint = None, screenshotTrigger = False,
      hoverTimeout = None, timers = [], next_timer = 1, now = 0, downloads = []\<rparr>"

definition window_setTimeout :: "timer_action \<Rightarrow> nat \<Rightarrow> vis_state \<Rightarrow> nat \<times> vis_state" where
  "window_setTimeout act delay s =
     (next_timer s,
      s\<lparr>timers := timers s @ [Timer (next_timer s) (now s + delay) act],
        next_timer := Suc (next_timer s)\<rparr>)"

definition window_clearTimeout :: "nat \<Rightarrow> vis_state \<Rightarrow> vis_state" where
  "window_clearTimeout h s = s\<lparr>timers := filter (\<lambda>tm. timer_id tm \<noteq> h) (timers s)\<rparr>"

text \<open>The two timer callbacks of the component.\<close>

definition fire :: "timer_action \<Rightarrow> vis_state \<Rightarrow> vis_state" where
  "fire act s =
     (case act of
        ClearHover \<Rightarrow> s\<lparr>hoveredPoint := None\<rparr>
      | ResetTrigger \<Rightarrow> s\<lparr>screenshotTrigger := False\<rparr>)"

text \<open>
  Time passes until \<open>t\<close>: the timers due by then run, in the order of their deadlines,
  each at its deadline. The clock never goes back.
\<close>

definition advance :: "nat \<Rightarrow> vis_state \<Rightarrow> vis_state" where
  "advance t s =
     (let due = sort_key deadline (filter (\<lambda>tm. deadline tm \<le> t) (timers s));
          rest = filter (\<lambda>tm. \<not> deadline tm \<le> t) (timers s)
      in (fold (\<lambda>tm. fire (action tm)) due (s\<lparr>timers := rest\<rparr>))\<lparr>now := max (now s) t\<rparr>)"

subsection \<open>handleHover\<close>

text \<open>The argument is \<open>None\<close> for \<open>null\<close> and \<open>undefined\<close>; a point object is truthy.\<close>

definition handleHover :: "DataPoint option \<Rightarrow> vis_state \<Rightarrow> vis_state" where
  "handleHover point s =
     (let s1 = (case hoverTimeout s of
                  Some h \<Rightarrow> if h \<noteq> 0 then window_clearTimeout h s else s
                | None \<Rightarrow> s)
      in case point of
           Some p \<Rightarrow> s1\<lparr>hoveredPoint := Some p\<rparr>
         | None \<Rightarrow>
             (case window_setTimeout ClearHover 50 s1 of
                (h, s2) \<Rightarrow> s2\<lparr>hoverTimeout := Some h\<rparr>))"

text \<open>\<open>setSelectedPoint\<close>, from a click on a point or from \<open>onPointerMissed\<close>.\<close>

definition setSelectedPoint :: "DataPoint option \<Rightarrow> vis_state \<Rightarrow> vis_state" where
  "setSelectedPoint p s = s\<lparr>selectedPoint := p\<rparr>"

text \<open>
  A hover report at a given time: the clock reaches \<open>t\<close>, then the frame callback
  calls \<open>handleHover\<close>.
\<close>

definition report_at :: "nat \<Rightarrow> DataPoint option \<Rightarrow> vis_state \<Rightarrow> vis_state" where
  "report_at t point s = handleHover point (advance t s)"

text \<open>A run of misses, one at each of the given times.\<close>

fun misses_at :: "nat list \<Rightarrow> vis_state \<Rightarrow> vis_state" where
  "misses_at [] s = s"
| "misses_at (t # ts) s = misses_at ts (report_at t None s)"

subsection \<open>Capture\<close>

text \<open>\<open>takeScreenshot\<close> of the imperative handle; it returns nothing.\<close>

definition takeScreenshot :: "vis_state \<Rightarrow> unit \<times> vis_state" where
  "takeScreenshot s =
     ((), snd (window_setTimeout ResetTrigger 100 (s\<lparr>screenshotTrigger := True\<rparr>)))"

text \<open>\<open>s.replace(pat, rep)\<close> with a string pattern: the first occurrence only.\<close>

fun replace_first :: "string \<Rightarrow> string \<Rightarrow> string \<Rightarrow> string" where
  "replace_first pat rep [] = (if pat = [] then rep else [])"
| "replace_first pat rep (c # cs) =
     (if take (length pat) (c # cs) = pat then rep @ drop (length pat) (c # cs)
      else c # replace_first pat rep cs)"

text \<open>
  \<open>handleCapture\<close>. The outcome of \<open>gl.domElement.toDataURL('image/png')\<close> is a
  parameter: the data URL, or the exception it throws. \<open>stamp\<close> is the decimal text of
  \<open>new Date().getTime()\<close>. There is no \<open>try\<close> around the call, so its exception
  leaves \<open>handleCapture\<close>.
\<close>

definition handleCapture :: "js_error + string \<Rightarrow> string \<Rightarrow> vis_state \<Rightarrow> js_error + vis_state" where
  "handleCapture toDataURL stamp s =
     (case toDataURL of
        Inl e \<Rightarrow> Inl e
      | Inr url \<Rightarrow>
          Inr (s\<lparr>downloads := downloads s @
                    [\<lparr>file_name = ''VoxNavigator-3D-'' @ stamp @ ''.png'',
                      href = replace_first ''image/png'' ''image/octet-stream'' url\<rparr>]\<rparr>))"

text \<open>The effect of \<open>SceneCapture\<close>; an exception of the callback leaves the effect.\<close>

definition SceneCapture_effect :: "js_error + string \<Rightarrow> string \<Rightarrow> vis_state \<Rightarrow> js_error + vis_state" where
  "SceneCapture_effect toDataURL stamp s =
     (if screenshotTrigger s then handleCapture toDataURL stamp s else Inr s)"

subsection \<open>Overlays\<close>

text \<open>The two conditional overlays of the render output of \<open>DataVisualizer\<close>.\<close>

datatype overlay = HoverTooltip DataPoint | DetailPanel DataPoint

definition render_overlays :: "vis_state \<Rightarrow> overlay list" where
  "render_overlays s =
     (case hoveredPoint s of
        Some h \<Rightarrow> if selectedPoint s = None \<and> \<not> screenshotTrigger s then [HoverTooltip h] else []
      | None \<Rightarrow> []) @
     (case selectedPoint s of
        Some p \<Rightarrow> if \<not> screenshotTrigger s then [DetailPanel p] else []
      | None \<Rightarrow> [])"

section \<open>Per-category batches (CategoryPoints)\<close>

subsection \<open>Marker textures\<close>

datatype canvas_op =
    FillStyle string | BeginPath | Arc int int int real real | Fill
  | FillRect int int int int | MoveTo int int | LineTo int int | ClosePath

text \<open>A texture wraps the canvas it was drawn on; canvases are numbered as created.\<close>

record texture =
  canvas :: nat
  width :: nat
  height :: nat
  drawn :: "canvas_op list"

text \<open>\<open>createShapeTexture\<close>; the state is the number of canvases created so far.\<close>

definition createShapeTexture :: "PointShape \<Rightarrow> nat \<Rightarrow> texture \<times> nat" where
  "createShapeTexture sh n =
     (\<lparr>canvas = n, width = 64, height = 64,
       drawn = FillStyle ''white'' #
         (case sh of
            Circle \<Rightarrow> [BeginPath, Arc 32 32 28 0 (pi * 2), Fill]
          | Square \<Rightarrow> [FillRect 8 8 48 48]
          | Diamond \<Rightarrow> [BeginPath, MoveTo 32 8, LineTo 56 32, LineTo 32 56, LineTo 8 32,
                         ClosePath, Fill]
          | Cross \<Rightarrow> [FillRect 24 8 16 48, FillRect 8 24 48 16])\<rparr>,
      Suc n)"

text \<open>
  \<open>useMemo(() => createShapeTexture(style.shape), [style.shape])\<close>: the cell of one
  component instance holds the last dependency and the value computed for it.
\<close>

definition useMemo_texture ::
  "(PointShape \<times> texture) option \<Rightarrow> PointShape \<Rightarrow> nat \<Rightarrow> texture \<times> (PointShape \<times> texture) option \<times> nat" where
  "useMemo_texture cell sh n =
     (case cell of
        Some (dep, t) \<Rightarrow>
          if dep = sh then (t, cell, n)
          else (case createShapeTexture sh n of (t', n') \<Rightarrow> (t', Some (sh, t'), n'))
      | None \<Rightarrow> (case createShapeTexture sh n of (t', n') \<Rightarrow> (t', Some (sh, t'), n')))"

subsection \<open>Picking, once per frame\<close>

text \<open>
  One entry of the array returned by \<open>raycaster.intersectObject\<close>, which is sorted by
  distance, nearest first.
\<close>

record intersection =
  distance :: real
  index :: "nat option"

text \<open>
  One \<open>CategoryPoints\<close> in one frame: its props and what the raycaster returns for its
  mesh under the pointer of that frame.
\<close>

record batch =
  batch_points :: "DataPoint list"
  style :: CategoryStyle
  intersects :: "intersection list"

text \<open>The \<open>useFrame\<close> callback: the calls of \<open>onHover\<close> it makes, none or one.\<close>

definition CategoryPoints_useFrame :: "batch \<Rightarrow> DataPoint option list" where
  "CategoryPoints_useFrame b =
     (if \<not> visible (style b) then []
      else (case intersects b of
              [] \<Rightarrow> [None]
            | i # _ \<Rightarrow>
                (case index i of
                   None \<Rightarrow> []
                 | Some idx \<Rightarrow> [nth_opt (batch_points b) idx])))"

text \<open>
  What the component renders: nothing, or the points with their packed positions.
  The positions are written into a \<open>Float32Array\<close>, which rounds each number to the
  nearest 32-bit float, an infinity where it overflows; that rounding is the
  parameter \<open>fround\<close>.
\<close>

record points_element =
  positions :: "jsnum list"
  material_color :: string

definition CategoryPoints_render :: "(jsnum \<Rightarrow> jsnum) \<Rightarrow> batch \<Rightarrow> points_element option" where
  "CategoryPoints_render fround b =
     (if \<not> visible (style b) then None
      else Some \<lparr>positions =
                   concat (map (\<lambda>p. [fround (x p), fround (y p), fround (z p)]) (batch_points b)),
                 material_color = CategoryStyle.color (style b)\<rparr>)"

text \<open>
  A frame runs the callbacks of the batches in order; \<open>onHover\<close> is \<open>handleHover\<close>.
  No timer runs in between: the callbacks of one frame run in one task.
\<close>

definition frame_reports :: "batch list \<Rightarrow> DataPoint option list" where
  "frame_reports bs = concat (map CategoryPoints_useFrame bs)"

definition frame :: "batch list \<Rightarrow> vis_state \<Rightarrow> vis_state" where
  "frame bs s = fold handleHover (frame_reports bs) s"

text \<open>A run of frames on the same batches, one at each of the given times.\<close>

fun frames_at :: "nat list \<Rightarrow> batch list \<Rightarrow> vis_state \<Rightarrow> vis_state" where
  "frames_at [] bs s = s"
| "frames_at (t # ts) bs s = frames_at ts bs (frame bs (advance t s))"

section \<open>Notions used in the statements\<close>

text \<open>The columns of a line: the comma-separated fields, trimmed.\<close>

definition line_cols :: "string \<Rightarrow> string list" where
  "line_cols line = map trim (split_on CHR '','' line)"

text \<open>
  Column \<open>k\<close> (from 0) read as a number, as the specification words it: the parsed
  value, and 0 where the column is absent or does not parse.
\<close>

definition parsed_number :: "(string \<Rightarrow> jsnum) \<Rightarrow> string list \<Rightarrow> nat \<Rightarrow> jsnum" where
  "parsed_number pf cols k =
     (if k < length cols \<and> pf (cols ! k) \<noteq> NaN then pf (cols ! k) else Fin 0)"

text \<open>The distinct members of a sequence, in the order of their first occurrence.\<close>

fun first_occurrences :: "'a list \<Rightarrow> 'a list" where
  "first_occurrences [] = []"
| "first_occurrences (a # as) = a # filter (\<lambda>b. b \<noteq> a) (first_occurrences as)"

text \<open>The pending timers that would clear the hover.\<close>

definition pending_clears :: "vis_state \<Rightarrow> timer list" where
  "pending_clears s = filter (\<lambda>tm. action tm = ClearHover) (timers s)"

text \<open>
  The states the component can be in: from the initial one, by any of its operations
  and by the passing of time.
\<close>

inductive reachable :: "vis_state \<Rightarrow> bool" where
  init: "reachable initial_vis"
| hover: "reachable s \<Longrightarrow> reachable (handleHover point s)"
| time: "reachable s \<Longrightarrow> reachable (advance t s)"
| select: "reachable s \<Longrightarrow> reachable (setSelectedPoint point s)"
| shot: "reachable s \<Longrightarrow> reachable (snd (takeScreenshot s))"
| capture: "reachable s \<Longrightarrow> SceneCapture_effect r stamp s = Inr s' \<Longrightarrow> reachable s'"

text \<open>
  What holds of the timers in every such state: handles are positive, and a pending
  clear of the hover is the timer that \<open>hoverTimeout\<close> refers to.
\<close>

definition hover_inv :: "vis_state \<Rightarrow> bool" where
  "hover_inv s =
     (0 < next_timer s \<and>
      (\<forall>tm \<in> set (pending_clears s). hoverTimeout s = Some (timer_id tm) \<and> timer_id tm \<noteq> 0))"

text \<open>A point with the given label, for examples.\<close>

definition point_labelled :: "string \<Rightarrow> DataPoint" where
  "point_labelled l =
     \<lparr>x = Fin 0, y = Fin 0, z = Fin 0, label = l, metadata = [], color = Undefined\<rparr>"

definition points_labelled :: "string list \<Rightarrow> DataPoint list" where
  "points_labelled ls = map point_labelled ls"

text \<open>
  The state between a hit at time \<open>t1\<close> on point \<open>p\<close> and the end of its debounce
  window: the hover is \<open>p\<close>, and no pending clear is due inside the window.
\<close>

definition in_window :: "nat \<Rightarrow> DataPoint \<Rightarrow> vis_state \<Rightarrow> bool" where
  "in_window t1 p s =
     (hoveredPoint s = Some p \<and> t1 \<le> now s \<and>
      (\<forall>tm \<in> set (pending_clears s). t1 + 50 \<le> deadline tm))"

text \<open>
  A run of misses that polls: the first before \<open>d\<close>, each of the others less than
  50 ms after the one before.
\<close>

fun polled :: "nat \<Rightarrow> nat list \<Rightarrow> bool" where
  "polled d [] = True"
| "polled d (t # ts) = (t < d \<and> polled (t + 50) ts)"








text \<open>A batch of one visible point labelled \<open>l\<close>, hit at distance \<open>d\<close>, for examples.\<close>

definition batch_of_one :: "string \<Rightarrow> bool \<Rightarrow> real \<Rightarrow> batch" where
  "batch_of_one l v d =
     \<lparr>batch_points = [point_labelled l],
      style = \<lparr>CategoryStyle.color = ''#60a5fa'', shape = Circle, visible = v\<rparr>,
      intersects = [\<lparr>distance = d, index = Some 0\<rparr>]\<rparr>"

text \<open>A batch of one visible point labelled \<open>l\<close> that the ray does not intersect.\<close>

definition batch_missed :: "string \<Rightarrow> batch" where
  "batch_missed l =
     \<lparr>batch_points = [point_labelled l],
      style = \<lparr>CategoryStyle.color = ''#60a5fa'', shape = Circle, visible = True\<rparr>,
      intersects = []\<rparr>"

text \<open>The array a group object holds for a label; the empty array if it holds none.\<close>

definition group_of :: "(string \<times> DataPoint list) list \<Rightarrow> string \<Rightarrow> DataPoint list" where
  "group_of groups l = (case map_of groups l of None \<Rightarrow> [] | Some g \<Rightarrow> g)"

text \<open>The label \<open>processCSV\<close> gives the point of a line.\<close>

definition line_label :: "string \<Rightarrow> string" where
  "line_label line = or_default (nth_opt (line_cols line) 3) ''Unlabeled''"

text \<open>
  What holds of the parser's colour dictionary after the lines with the labels \<open>ls\<close>,
  none of them the name of a member of \<open>Object.prototype\<close>: its keys are the distinct
  labels in first-seen order, the index counts them, and key \<open>k\<close> has colour
  \<open>k mod 10\<close> of the palette.
\<close>

definition csv_inv :: "csv_state \<Rightarrow> string list \<Rightarrow> bool" where
  "csv_inv st ls =
     (map fst (categoryColors st) = new_Set ls \<and>
      colorIndex st = length (categoryColors st) \<and>
      (\<forall>k < length (categoryColors st).
         snd (categoryColors st ! k) = upload_colorPalette ! (k mod 10)))"

section \<open>Properties\<close>

subsection \<open>Ingestion\<close>

lemma map_lines_length: "length (map_lines pf st ls) = length ls"
  by (induction ls arbitrary: st) (auto split: prod.splits)

lemma map_lines_nth:
  "i < length ls \<Longrightarrow> \<exists>st'. map_lines pf st ls ! i = fst (parse_line pf st' (ls ! i))"
proof (induction ls arbitrary: st i)
  case Nil
  then show ?case by simp
next
  case (Cons l ls)
  obtain p st1 where pl: "parse_line pf st l = (p, st1)" by (cases "parse_line pf st l")
  show ?case
  proof (cases i)
    case 0
    with pl show ?thesis by (auto intro: exI [of _ st])
  next
    case (Suc j)
    with Cons.prems have "j < length ls" by simp
    from Cons.IH [OF this, of st1] Suc pl show ?thesis by simp
  qed
qed

lemma parse_line_fields:
  "x (fst (parse_line pf st l)) = or_zero (parseFloat_col pf (nth_opt (line_cols l) 0))"
  "y (fst (parse_line pf st l)) = or_zero (parseFloat_col pf (nth_opt (line_cols l) 1))"
  "z (fst (parse_line pf st l)) = or_zero (parseFloat_col pf (nth_opt (line_cols l) 2))"
  "label (fst (parse_line pf st l)) = or_default (nth_opt (line_cols l) 3) ''Unlabeled''"
  "metadata (fst (parse_line pf st l)) = or_default (nth_opt (line_cols l) 4) []"
  by (simp_all add: parse_line_def Let_def line_cols_def)

lemma or_zero_parsed: "or_zero (parseFloat_col pf (nth_opt cols k)) = parsed_number pf cols k"
  by (auto simp: or_zero_def num_truthy_def parseFloat_col_def nth_opt_def parsed_number_def)

text \<open>
  C5. For every text and every \<open>parseFloat\<close>, \<open>processCSV\<close> yields one point per
  non-blank line (a line whose trimmed text is not empty), in line order. The point of
  line \<open>i\<close> has, from the trimmed comma-separated columns of that line: columns 1 to 3
  parsed as numbers, with 0 where the column is absent or does not parse; column 4 as
  label, \<open>Unlabeled\<close> where it is absent or empty; column 5 as metadata, the empty string
  where it is absent. The function is total: none of its steps can throw.
\<close>

theorem processCSV_point_per_line:
  "length (processCSV pf text) = length (csv_lines text) \<and>
   csv_lines text = filter (\<lambda>l. trim l \<noteq> []) (split_on (CHR 0x0A) text) \<and>
   (\<forall>i < length (csv_lines text).
      let cols = line_cols (csv_lines text ! i);
          p = processCSV pf text ! i
      in x p = parsed_number pf cols 0 \<and> y p = parsed_number pf cols 1 \<and>
         z p = parsed_number pf cols 2 \<and>
         label p = (if 3 < length cols \<and> cols ! 3 \<noteq> [] then cols ! 3 else ''Unlabeled'') \<and>
         metadata p = (if 4 < length cols then cols ! 4 else []))"
proof (intro conjI allI impI)
  show "length (processCSV pf text) = length (csv_lines text)"
    by (simp add: processCSV_def map_lines_length)
next
  show "csv_lines text = filter (\<lambda>l. trim l \<noteq> []) (split_on (CHR 0x0A) text)"
    by (simp add: csv_lines_def)
next
  fix i assume i: "i < length (csv_lines text)"
  from map_lines_nth [OF i] obtain st' where
    p: "processCSV pf text ! i = fst (parse_line pf st' (csv_lines text ! i))"
    unfolding processCSV_def by blast
  show "let cols = line_cols (csv_lines text ! i);
          p = processCSV pf text ! i
      in x p = parsed_number pf cols 0 \<and> y p = parsed_number pf cols 1 \<and>
         z p = parsed_number pf cols 2 \<and>
         label p = (if 3 < length cols \<and> cols ! 3 \<noteq> [] then cols ! 3 else ''Unlabeled'') \<and>
         metadata p = (if 4 < length cols then cols ! 4 else [])"
    unfolding Let_def p parse_line_fields or_zero_parsed
    by (auto simp: or_default_def nth_opt_def)
qed

theorem processCSV_point_per_line_witness:
  "length (processCSV (\<lambda>s. if s = ''7'' then Fin 7 else NaN) (''a,7, ,,m'' @ [CHR 0x0A] @ '' '')) = 1 \<and>
   x (processCSV (\<lambda>s. if s = ''7'' then Fin 7 else NaN) (''a,7, ,,m'' @ [CHR 0x0A] @ '' '') ! 0) = Fin 0 \<and>
   y (processCSV (\<lambda>s. if s = ''7'' then Fin 7 else NaN) (''a,7, ,,m'' @ [CHR 0x0A] @ '' '') ! 0) = Fin 7 \<and>
   label (processCSV (\<lambda>s. if s = ''7'' then Fin 7 else NaN) (''a,7, ,,m'' @ [CHR 0x0A] @ '' '') ! 0)
     = ''Unlabeled'' \<and>
   metadata (processCSV (\<lambda>s. if s = ''7'' then Fin 7 else NaN) (''a,7, ,,m'' @ [CHR 0x0A] @ '' '') ! 0)
     = ''m''"
  using processCSV_point_per_line
          [of "\<lambda>s. if s = ''7'' then Fin 7 else NaN" "''a,7, ,,m'' @ [CHR 0x0A] @ '' ''"]
  by (simp add: csv_lines_def trim_def is_ws_def Let_def parsed_number_def line_cols_def)

subsection \<open>Default styles\<close>

lemma set_first_occurrences: "set (first_occurrences vs) = set vs"
  by (induction vs) auto

lemma distinct_first_occurrences: "distinct (first_occurrences vs)"
  by (induction vs) (auto simp: set_first_occurrences)

lemma foldl_set_add:
  "foldl set_add acc vs = acc @ filter (\<lambda>v. v \<notin> set acc) (first_occurrences vs)"
proof (induction vs arbitrary: acc)
  case Nil
  then show ?case by simp
next
  case (Cons a as)
  show ?case
  proof (cases "a \<in> set acc")
    case True
    then have "filter (\<lambda>v. v \<notin> set acc) (filter (\<lambda>b. b \<noteq> a) (first_occurrences as))
             = filter (\<lambda>v. v \<notin> set acc) (first_occurrences as)"
      by (auto intro: filter_cong)
    with True Cons.IH [of acc] show ?thesis by (simp add: set_add_def)
  next
    case False
    have "filter (\<lambda>v. v \<notin> set (acc @ [a])) (first_occurrences as)
        = filter (\<lambda>v. v \<notin> set acc) (filter (\<lambda>b. b \<noteq> a) (first_occurrences as))"
      by (auto intro: filter_cong)
    with False Cons.IH [of "acc @ [a]"] show ?thesis by (simp add: set_add_def)
  qed
qed

lemma new_Set_first_occurrences: "new_Set vs = first_occurrences vs"
  by (simp add: new_Set_def foldl_set_add)

lemma map_of_assoc_set: "map_of (assoc_set kvs k v) k' = (if k' = k then Some v else map_of kvs k')"
  by (induction kvs) auto

lemma get_style_set_same: "get_style (set_style reg k st) k = StyleObj st"
  by (simp add: get_style_def set_style_def map_of_assoc_set)

lemma get_style_set_other:
  assumes "k' \<noteq> k" and "get_style reg k' = StyleObj st'"
  shows "get_style (set_style reg k st) k' = StyleObj st'"
proof (cases "k' = ''__proto__''")
  case True
  with assms have "proto reg = Some st'"
    by (simp add: get_style_def split: option.splits)
  with True assms(1) show ?thesis
    by (simp add: get_style_def set_style_def)
next
  case False
  with assms(2) have "map_of (own reg) k' = Some st'"
    by (simp add: get_style_def split: option.splits if_splits)
  with False assms(1) show ?thesis
    by (simp add: get_style_def set_style_def map_of_assoc_set)
qed

lemma assign_styles_keeps:
  "cat \<notin> set cats \<Longrightarrow> get_style reg cat = StyleObj st \<Longrightarrow>
   get_style (assign_styles reg i cats) cat = StyleObj st"
proof (induction cats arbitrary: reg i)
  case Nil
  then show ?case by simp
next
  case (Cons c cs)
  then show ?case by (simp add: get_style_set_other)
qed

lemma assign_styles_nth:
  "distinct cats \<Longrightarrow> k < length cats \<Longrightarrow>
   get_style (assign_styles reg i cats) (cats ! k) =
     StyleObj \<lparr>CategoryStyle.color = app_colorPalette ! ((i + k) mod length app_colorPalette),
               shape = Circle, visible = True\<rparr>"
proof (induction cats arbitrary: reg i k)
  case Nil
  then show ?case by simp
next
  case (Cons c cs)
  show ?case
  proof (cases k)
    case 0
    with Cons.prems show ?thesis
      by (simp add: assign_styles_keeps get_style_set_same)
  next
    case (Suc j)
    with Cons.prems Cons.IH [of j _ "Suc i"] show ?thesis by simp
  qed
qed

lemma hd_categories: "categories (handleDataLoaded pts prev) = new_Set (map label pts)"
  by (simp add: handleDataLoaded_def Let_def)
lemma hd_styles: "categoryStyles (handleDataLoaded pts prev) = assign_styles \<lparr>own = [], proto = None\<rparr> 0 (new_Set (map label pts))"
  by (simp add: handleDataLoaded_def Let_def)
lemma handleDataLoaded_color:
  assumes "k < length (categories (handleDataLoaded pts prev))"
  shows "style_color (categoryStyles (handleDataLoaded pts prev))
           (categories (handleDataLoaded pts prev) ! k) = Some (app_colorPalette ! (k mod 10))"
proof -
  have d: "distinct (new_Set (map label pts))"
    by (simp add: new_Set_first_occurrences distinct_first_occurrences)
  from assms have k: "k < length (new_Set (map label pts))"
    by (simp add: hd_categories)
  have l: "length app_colorPalette = 10" by (simp add: app_colorPalette_def)
  show ?thesis
    unfolding hd_categories hd_styles style_color_def assign_styles_nth [OF d k, of "\<lparr>own = [], proto = None\<rparr>" 0] l
    by simp
qed

lemma app_colorPalette_distinct: "distinct app_colorPalette" "length app_colorPalette = 10"
  by (simp_all add: app_colorPalette_def)

text \<open>
  The styles that \<open>handleDataLoaded\<close> creates, for every point sequence: the category
  list is the distinct labels in first-seen order, and the style of the \<open>k\<close>-th of them
  (from 0) has the colour \<open>k mod 10\<close> of the palette of ten. Hence any two of the first
  ten categories have different colours, and category \<open>k \<ge> 10\<close> has the colour of
  category \<open>k - 10\<close>.
\<close>

lemma default_colors_cycle:
  "categories (handleDataLoaded pts prev) = first_occurrences (map label pts) \<and>
   (\<forall>k < length (categories (handleDataLoaded pts prev)).
      style_color (categoryStyles (handleDataLoaded pts prev))
        (categories (handleDataLoaded pts prev) ! k) = Some (app_colorPalette ! (k mod 10))) \<and>
   (\<forall>j < length (categories (handleDataLoaded pts prev)).
    \<forall>k < length (categories (handleDataLoaded pts prev)).
      j < 10 \<and> k < 10 \<and> j \<noteq> k \<longrightarrow>
      style_color (categoryStyles (handleDataLoaded pts prev))
        (categories (handleDataLoaded pts prev) ! j) \<noteq>
      style_color (categoryStyles (handleDataLoaded pts prev))
        (categories (handleDataLoaded pts prev) ! k)) \<and>
   (\<forall>k < length (categories (handleDataLoaded pts prev)).
      10 \<le> k \<longrightarrow>
      style_color (categoryStyles (handleDataLoaded pts prev))
        (categories (handleDataLoaded pts prev) ! k) =
      style_color (categoryStyles (handleDataLoaded pts prev))
        (categories (handleDataLoaded pts prev) ! (k - 10)))"
proof (intro conjI allI impI)
  show "categories (handleDataLoaded pts prev) = first_occurrences (map label pts)"
    by (simp add: hd_categories new_Set_first_occurrences)
next
  fix k assume "k < length (categories (handleDataLoaded pts prev))"
  then show "style_color (categoryStyles (handleDataLoaded pts prev))
        (categories (handleDataLoaded pts prev) ! k) = Some (app_colorPalette ! (k mod 10))"
    by (rule handleDataLoaded_color)
next
  fix j k
  assume j: "j < length (categories (handleDataLoaded pts prev))"
    and k: "k < length (categories (handleDataLoaded pts prev))"
    and jk: "j < 10 \<and> k < 10 \<and> j \<noteq> k"
  from jk have "app_colorPalette ! j \<noteq> app_colorPalette ! k"
    using app_colorPalette_distinct by (simp add: nth_eq_iff_index_eq)
  with jk show "style_color (categoryStyles (handleDataLoaded pts prev))
        (categories (handleDataLoaded pts prev) ! j) \<noteq>
      style_color (categoryStyles (handleDataLoaded pts prev))
        (categories (handleDataLoaded pts prev) ! k)"
    by (simp add: handleDataLoaded_color [OF j] handleDataLoaded_color [OF k])
next
  fix k
  assume k: "k < length (categories (handleDataLoaded pts prev))" and ge: "10 \<le> k"
  then have k': "k - 10 < length (categories (handleDataLoaded pts prev))" by simp
  from ge have "(k - 10) mod 10 = k mod 10" using le_mod_geq [of 10 k] by simp
  then show "style_color (categoryStyles (handleDataLoaded pts prev))
        (categories (handleDataLoaded pts prev) ! k) =
      style_color (categoryStyles (handleDataLoaded pts prev))
        (categories (handleDataLoaded pts prev) ! (k - 10))"
    by (simp add: handleDataLoaded_color [OF k] handleDataLoaded_color [OF k'])
qed

lemma default_colors_cycle_example:
  "style_color (categoryStyles (handleDataLoaded
        (points_labelled
           [''a'', ''b'', ''a'', ''c'', ''d'', ''e'', ''f'', ''g'', ''h'', ''i'', ''j'', ''k''])
        initial_state)) ''k'' = Some ''#60a5fa'' \<and>
   style_color (categoryStyles (handleDataLoaded
        (points_labelled
           [''a'', ''b'', ''a'', ''c'', ''d'', ''e'', ''f'', ''g'', ''h'', ''i'', ''j'', ''k''])
        initial_state)) ''a'' = Some ''#60a5fa'' \<and>
   style_color (categoryStyles (handleDataLoaded
        (points_labelled
           [''a'', ''b'', ''a'', ''c'', ''d'', ''e'', ''f'', ''g'', ''h'', ''i'', ''j'', ''k''])
        initial_state)) ''b'' = Some ''#f87171''"
proof -
  let ?st = "handleDataLoaded
        (points_labelled
           [''a'', ''b'', ''a'', ''c'', ''d'', ''e'', ''f'', ''g'', ''h'', ''i'', ''j'', ''k''])
        initial_state"
  have c: "categories ?st = [''a'', ''b'', ''c'', ''d'', ''e'', ''f'', ''g'', ''h'', ''i'', ''j'', ''k'']"
    by (simp add: hd_categories points_labelled_def point_labelled_def new_Set_first_occurrences)
  from default_colors_cycle [of "points_labelled
           [''a'', ''b'', ''a'', ''c'', ''d'', ''e'', ''f'', ''g'', ''h'', ''i'', ''j'', ''k'']" initial_state]
  have a: "\<forall>k < length (categories ?st).
      style_color (categoryStyles ?st) (categories ?st ! k) = Some (app_colorPalette ! (k mod 10))"
    by blast
  from a [rule_format, of 10] a [rule_format, of 0] a [rule_format, of 1]
  show ?thesis unfolding c by (simp add: app_colorPalette_def)
qed

subsection \<open>Grouping, for labels that are ordinary keys\<close>

lemma map_fst_assoc_set:
  "map fst (assoc_set kvs k v) = set_add (map fst kvs) k"
proof (induction kvs)
  case Nil
  then show ?case by (simp add: set_add_def)
next
  case (Cons kv kvs)
  obtain a b where kv: "kv = (a, b)" by (cases kv)
  show ?case
  proof (cases "a = k")
    case True
    with kv show ?thesis by (simp add: set_add_def)
  next
    case False
    with kv Cons.IH show ?thesis by (simp add: set_add_def)
  qed
qed

lemma map_of_None_iff: "map_of kvs k = None \<longleftrightarrow> k \<notin> set (map fst kvs)"
  by (simp add: map_of_eq_None_iff)

lemma group_point_ordinary:
  assumes "label p \<notin> set object_prototype_keys"
  shows "\<exists>groups'. group_point groups p = Inr groups' \<and>
           map fst groups' = set_add (map fst groups) (label p) \<and>
           (\<forall>l. group_of groups' l =
                  (if l = label p then group_of groups l @ [p] else group_of groups l))"
proof (cases "map_of groups (label p)")
  case None
  with assms show ?thesis
    by (auto simp: group_point_def Let_def map_of_assoc_set map_fst_assoc_set group_of_def
        set_add_def)
next
  case (Some arr)
  then have "label p \<in> set (map fst groups)"
    using map_of_None_iff [of groups "label p"] by simp
  with Some show ?thesis
    by (auto simp: group_point_def Let_def map_of_assoc_set map_fst_assoc_set group_of_def
        set_add_def)
qed

lemma group_points_ordinary:
  "\<forall>p \<in> set ps. label p \<notin> set object_prototype_keys \<Longrightarrow>
   \<exists>groups'. group_points groups ps = Inr groups' \<and>
     map fst groups' = foldl set_add (map fst groups) (map label ps) \<and>
     (\<forall>l. group_of groups' l = group_of groups l @ filter (\<lambda>p. label p = l) ps)"
proof (induction ps arbitrary: groups)
  case Nil
  then show ?case by simp
next
  case (Cons p ps)
  from Cons.prems have "label p \<notin> set object_prototype_keys" by simp
  from group_point_ordinary [OF this, of groups] obtain g1 where
    g1: "group_point groups p = Inr g1"
        "map fst g1 = set_add (map fst groups) (label p)"
        "\<forall>l. group_of g1 l = (if l = label p then group_of groups l @ [p] else group_of groups l)"
    by blast
  from Cons.prems have "\<forall>p \<in> set ps. label p \<notin> set object_prototype_keys" by simp
  from Cons.IH [OF this, of g1] obtain g2 where
    g2: "group_points g1 ps = Inr g2"
        "map fst g2 = foldl set_add (map fst g1) (map label ps)"
        "\<forall>l. group_of g2 l = group_of g1 l @ filter (\<lambda>p. label p = l) ps"
    by blast
  from g1 g2 show ?case by auto
qed

text \<open>
  Where no label names a member of \<open>Object.prototype\<close>, the grouping succeeds: the
  groups come in the order of first occurrence of their labels, and the group of a
  label holds the points with that label, in input order. Every point is in the group
  of its label and in no other.
\<close>

lemma pointsByCategory_ordinary:
  assumes "\<forall>p \<in> set pts. label p \<notin> set object_prototype_keys"
  shows "\<exists>groups. pointsByCategory pts = Inr groups \<and>
           map fst groups = first_occurrences (map label pts) \<and>
           (\<forall>l. group_of groups l = filter (\<lambda>p. label p = l) pts)"
  using group_points_ordinary [OF assms, of "[]"]
  by (auto simp: pointsByCategory_def group_of_def new_Set_first_occurrences [unfolded new_Set_def])

lemma Object_entries_no_index:
  "\<forall>kv \<in> set obj. \<not> is_array_index (fst kv) \<Longrightarrow> Object_entries obj = obj"
  by (simp add: Object_entries_def filter_empty_conv [THEN iffD2] filter_id_conv [THEN iffD2])

text \<open>Where, moreover, no label is an array index, the batches are built in that order.\<close>

lemma batch_order_ordinary:
  assumes "\<forall>p \<in> set pts. label p \<notin> set object_prototype_keys \<and> \<not> is_array_index (label p)"
  shows "batch_order pts = Inr (first_occurrences (map label pts))"
proof -
  from assms pointsByCategory_ordinary [of pts] obtain groups where
    g: "pointsByCategory pts = Inr groups" "map fst groups = first_occurrences (map label pts)"
    by blast
  have "set (map fst groups) = label ` set pts"
    by (simp add: g(2) set_first_occurrences)
  with assms have "\<forall>kv \<in> set groups. \<not> is_array_index (fst kv)"
    by (metis (no_types, lifting) image_iff list.set_map)
  then show ?thesis
    by (simp add: batch_order_def g Object_entries_no_index)
qed

subsection \<open>The two colourings, for labels that are ordinary keys\<close>

lemma new_Set_snoc: "new_Set (ls @ [l]) = set_add (new_Set ls) l"
  by (simp add: new_Set_def)

lemma new_Set_append: "new_Set (ls @ ls') = new_Set ls @ filter (\<lambda>v. v \<notin> set (new_Set ls)) (first_occurrences ls')"
  by (simp add: new_Set_def foldl_set_add)

lemma distinct_new_Set: "distinct (new_Set ls)"
  by (simp add: new_Set_first_occurrences distinct_first_occurrences)

lemma upload_palette_nonempty: "k < 10 \<Longrightarrow> upload_colorPalette ! k \<noteq> []"
proof -
  have "\<forall>c \<in> set upload_colorPalette. c \<noteq> []" by (simp add: upload_colorPalette_def)
  moreover have "length upload_colorPalette = 10" by (simp add: upload_colorPalette_def)
  ultimately show "k < 10 \<Longrightarrow> upload_colorPalette ! k \<noteq> []" by (metis nth_mem)
qed

lemma palettes_equal: "upload_colorPalette = app_colorPalette"
  by (simp add: upload_colorPalette_def app_colorPalette_def)

lemma assoc_set_absent: "k \<notin> set (map fst kvs) \<Longrightarrow> assoc_set kvs k v = kvs @ [(k, v)]"
  by (induction kvs) auto

lemma map_of_nth:
  "distinct (map fst kvs) \<Longrightarrow> k < length kvs \<Longrightarrow> map_of kvs (fst (kvs ! k)) = Some (snd (kvs ! k))"
  by (simp add: map_of_eq_Some_iff)

lemma parse_line_label: "label (fst (parse_line pf st line)) = line_label line"
  by (simp add: parse_line_def Let_def line_label_def line_cols_def)

lemma parse_line_known:
  assumes inv: "csv_inv st ls" and k: "k < length (new_Set ls)" and l: "new_Set ls ! k = line_label line"
  shows "snd (parse_line pf st line) = st"
    and "DataPoint.color (fst (parse_line pf st line)) = Str (upload_colorPalette ! (k mod 10))"
proof -
  let ?cc = "categoryColors st"
  from inv have keys: "map fst ?cc = new_Set ls" by (simp add: csv_inv_def)
  then have len: "length ?cc = length (new_Set ls)" by (metis length_map)
  from keys have d: "distinct (map fst ?cc)" by (simp add: distinct_new_Set)
  from k len have k': "k < length ?cc" by simp
  have "fst (?cc ! k) = line_label line"
    using keys l k' by (metis nth_map)
  with map_of_nth [OF d k'] have m: "map_of ?cc (line_label line) = Some (snd (?cc ! k))" by simp
  from inv k' have v: "snd (?cc ! k) = upload_colorPalette ! (k mod 10)" by (simp add: csv_inv_def)
  have ne: "upload_colorPalette ! (k mod 10) \<noteq> []" by (simp add: upload_palette_nonempty)
  have g: "get_prop ?cc (line_label line) = Str (upload_colorPalette ! (k mod 10))"
    by (simp add: get_prop_def m v)
  then have t: "truthy (get_prop ?cc (line_label line))" by (simp add: truthy_def ne)
  from t show "snd (parse_line pf st line) = st"
    by (simp add: parse_line_def Let_def line_label_def line_cols_def)
  from t g show "DataPoint.color (fst (parse_line pf st line)) = Str (upload_colorPalette ! (k mod 10))"
    by (simp add: parse_line_def Let_def line_label_def line_cols_def)
qed

lemma parse_line_new:
  assumes inv: "csv_inv st ls" and l: "line_label line \<notin> set (new_Set ls)"
    and o: "line_label line \<notin> set object_prototype_keys"
  shows "csv_inv (snd (parse_line pf st line)) (ls @ [line_label line])"
    and "DataPoint.color (fst (parse_line pf st line)) =
           Str (upload_colorPalette ! (length (new_Set ls) mod 10))"
proof -
  let ?cc = "categoryColors st" and ?v = "upload_colorPalette ! (colorIndex st mod length upload_colorPalette)"
  from inv have keys: "map fst ?cc = new_Set ls" by (simp add: csv_inv_def)
  then have len: "length ?cc = length (new_Set ls)" by (metis length_map)
  from inv have ci: "colorIndex st = length ?cc" by (simp add: csv_inv_def)
  have pl: "length upload_colorPalette = 10" by (simp add: upload_colorPalette_def)
  from l keys have absent: "line_label line \<notin> set (map fst ?cc)" by simp
  then have m: "map_of ?cc (line_label line) = None" by (simp add: map_of_eq_None_iff)
  with o have g: "get_prop ?cc (line_label line) = Undefined" by (simp add: get_prop_def)
  from o have np: "line_label line \<noteq> ''__proto__''" by (auto simp: object_prototype_keys_def)
  have sp: "set_prop ?cc (line_label line) ?v = ?cc @ [(line_label line, ?v)]"
    using np absent by (simp add: set_prop_def assoc_set_absent)
  have st': "snd (parse_line pf st line) =
      st\<lparr>categoryColors := ?cc @ [(line_label line, ?v)], colorIndex := colorIndex st + 1\<rparr>"
    using g sp by (simp add: parse_line_def Let_def line_label_def line_cols_def truthy_def)
  have "\<forall>k < length (?cc @ [(line_label line, ?v)]).
          snd ((?cc @ [(line_label line, ?v)]) ! k) = upload_colorPalette ! (k mod 10)"
  proof (intro allI impI)
    fix k assume "k < length (?cc @ [(line_label line, ?v)])"
    then consider "k < length ?cc" | "k = length ?cc" by fastforce
    then show "snd ((?cc @ [(line_label line, ?v)]) ! k) = upload_colorPalette ! (k mod 10)"
    proof cases
      case 1
      with inv show ?thesis by (simp add: csv_inv_def nth_append)
    next
      case 2
      then show ?thesis by (simp add: nth_append ci pl)
    qed
  qed
  then show "csv_inv (snd (parse_line pf st line)) (ls @ [line_label line])"
    unfolding st' using keys ci l by (simp add: csv_inv_def new_Set_snoc set_add_def)
  have "get_prop (?cc @ [(line_label line, ?v)]) (line_label line) = Str ?v"
    using m by (simp add: get_prop_def map_add_def)
  then show "DataPoint.color (fst (parse_line pf st line)) =
           Str (upload_colorPalette ! (length (new_Set ls) mod 10))"
    using g sp by (simp add: parse_line_def Let_def line_label_def line_cols_def truthy_def ci len pl)
qed

lemma parse_line_ordinary:
  assumes inv: "csv_inv st ls" and o: "line_label line \<notin> set object_prototype_keys"
  shows "csv_inv (snd (parse_line pf st line)) (ls @ [line_label line]) \<and>
         (\<exists>k < length (new_Set (ls @ [line_label line])).
            new_Set (ls @ [line_label line]) ! k = line_label line \<and>
            DataPoint.color (fst (parse_line pf st line)) = Str (upload_colorPalette ! (k mod 10)))"
proof (cases "line_label line \<in> set (new_Set ls)")
  case True
  then obtain k where k: "k < length (new_Set ls)" "new_Set ls ! k = line_label line"
    by (auto simp: in_set_conv_nth)
  from True have same: "new_Set (ls @ [line_label line]) = new_Set ls"
    by (simp add: new_Set_snoc set_add_def)
  from inv have "csv_inv st (ls @ [line_label line])" by (simp add: csv_inv_def same)
  with parse_line_known [OF inv k] k show ?thesis unfolding same by auto
next
  case False
  have "new_Set (ls @ [line_label line]) = new_Set ls @ [line_label line]"
    using False by (simp add: new_Set_snoc set_add_def)
  with parse_line_new [OF inv False o] show ?thesis
    by (auto intro!: exI [of _ "length (new_Set ls)"])
qed

lemma map_lines_colors:
  "csv_inv st ls \<Longrightarrow> \<forall>line \<in> set lines. line_label line \<notin> set object_prototype_keys \<Longrightarrow>
   i < length lines \<Longrightarrow>
   \<exists>k < length (new_Set (ls @ map line_label lines)).
      new_Set (ls @ map line_label lines) ! k = line_label (lines ! i) \<and>
      DataPoint.color (map_lines pf st lines ! i) = Str (upload_colorPalette ! (k mod 10))"
proof (induction lines arbitrary: st ls i)
  case Nil
  then show ?case by simp
next
  case (Cons line lines)
  obtain p st' where pl: "parse_line pf st line = (p, st')" by (cases "parse_line pf st line")
  from Cons.prems have o: "line_label line \<notin> set object_prototype_keys" by simp
  from parse_line_ordinary [OF Cons.prems(1) o, of pf] pl
  have inv': "csv_inv st' (ls @ [line_label line])"
    and ex: "\<exists>k < length (new_Set (ls @ [line_label line])).
            new_Set (ls @ [line_label line]) ! k = line_label line \<and>
            DataPoint.color p = Str (upload_colorPalette ! (k mod 10))" by simp_all
  have app: "ls @ map line_label (line # lines) = (ls @ [line_label line]) @ map line_label lines"
    by simp
  show ?case
  proof (cases i)
    case 0
    from ex obtain k where k: "k < length (new_Set (ls @ [line_label line]))"
      "new_Set (ls @ [line_label line]) ! k = line_label line"
      "DataPoint.color p = Str (upload_colorPalette ! (k mod 10))" by blast
    from k(1,2) have "k < length (new_Set (ls @ map line_label (line # lines))) \<and>
        new_Set (ls @ map line_label (line # lines)) ! k = line_label line"
      unfolding app new_Set_append [of "ls @ [line_label line]"] by (simp add: nth_append)
    with k(3) 0 pl show ?thesis by auto
  next
    case (Suc j)
    with Cons.prems have j: "j < length lines" by simp
    from Cons.prems have os: "\<forall>line \<in> set lines. line_label line \<notin> set object_prototype_keys" by simp
    from Cons.IH [OF inv' os j] Suc pl show ?thesis unfolding app by simp
  qed
qed

lemma processCSV_labels: "map label (processCSV pf text) = map line_label (csv_lines text)"
proof (rule nth_equalityI)
  show "length (map label (processCSV pf text)) = length (map line_label (csv_lines text))"
    by (simp add: processCSV_def map_lines_length)
next
  fix i assume "i < length (map label (processCSV pf text))"
  then have i: "i < length (csv_lines text)" by (simp add: processCSV_def map_lines_length)
  from map_lines_nth [OF i] obtain st' where
    "processCSV pf text ! i = fst (parse_line pf st' (csv_lines text ! i))"
    unfolding processCSV_def by blast
  with i show "map label (processCSV pf text) ! i = map line_label (csv_lines text) ! i"
    by (simp add: processCSV_def map_lines_length parse_line_label)
qed

text \<open>
  Where no label names a member of \<open>Object.prototype\<close>, the colour the parser gives a
  point is the default colour of the style of its category.
\<close>

lemma colors_agree_ordinary:
  assumes "\<forall>p \<in> set (processCSV pf text). label p \<notin> set object_prototype_keys"
    and "p \<in> set (processCSV pf text)"
  shows "\<exists>c. DataPoint.color p = Str c \<and>
             style_color (categoryStyles (load_text pf text prev)) (label p) = Some c"
proof -
  from assms(2) obtain i where i: "i < length (processCSV pf text)" "processCSV pf text ! i = p"
    by (auto simp: in_set_conv_nth)
  then have i': "i < length (csv_lines text)" by (simp add: processCSV_def map_lines_length)
  have o: "\<forall>line \<in> set (csv_lines text). line_label line \<notin> set object_prototype_keys"
  proof
    fix line assume "line \<in> set (csv_lines text)"
    then have "line_label line \<in> set (map line_label (csv_lines text))" by simp
    then have "line_label line \<in> set (map label (processCSV pf text))"
      by (simp only: processCSV_labels)
    with assms(1) show "line_label line \<notin> set object_prototype_keys" by auto
  qed
  have inv: "csv_inv \<lparr>categoryColors = [], colorIndex = 0\<rparr> []"
    by (simp add: csv_inv_def new_Set_def)
  from map_lines_colors [OF inv o i', of pf] obtain k where
    k: "k < length (new_Set (map line_label (csv_lines text)))"
       "new_Set (map line_label (csv_lines text)) ! k = line_label (csv_lines text ! i)"
       "DataPoint.color (processCSV pf text ! i) = Str (upload_colorPalette ! (k mod 10))"
    unfolding processCSV_def by auto
  have lp: "label p = line_label (csv_lines text ! i)"
    using processCSV_labels [of pf "text"] i i' by (metis nth_map)
  have cats: "categories (handleDataLoaded (processCSV pf text) prev) =
               new_Set (map line_label (csv_lines text))"
    by (simp add: hd_categories processCSV_labels)
  from k(1) have kk: "k < length (categories (handleDataLoaded (processCSV pf text) prev))"
    by (simp add: cats)
  have "categories (handleDataLoaded (processCSV pf text) prev) ! k = label p"
    by (simp add: cats k(2) lp)
  with handleDataLoaded_color [OF kk]
  have "style_color (categoryStyles (load_text pf text prev)) (label p) =
          Some (app_colorPalette ! (k mod 10))"
    by (simp add: load_text_def)
  with k(3) i(2) show ?thesis by (simp add: palettes_equal)
qed

subsection \<open>Batch order and the two colourings\<close>

lemmas csv_eval =
  processCSV_def csv_lines_def trim_def is_ws_def parse_line_def Let_def nth_opt_def
  or_default_def get_prop_def set_prop_def truthy_def object_prototype_keys_def
  upload_colorPalette_def

text \<open>
  C9, at a failing input. The text has the labels \<open>b\<close> and \<open>1\<close>, in this order. The
  category list is \<open>b, 1\<close>, the order of first occurrence; the batches are built in the
  order \<open>1, b\<close>, because \<open>Object.entries\<close> lists the key \<open>1\<close>, an array index, before
  the key \<open>b\<close>. With the label \<open>constructor\<close> the grouping throws, and no point is in
  any group.
\<close>

theorem batch_order_numeric_label:
  "categories (load_text pf (''0,0,0,b'' @ [CHR 0x0A] @ ''0,0,0,1'') initial_state) = [''b'', ''1''] \<and>
   batch_order (processCSV pf (''0,0,0,b'' @ [CHR 0x0A] @ ''0,0,0,1'')) = Inr [''1'', ''b''] \<and>
   batch_order (processCSV pf ''0,0,0,constructor'') = Inl TypeError"
proof (intro conjI)
  have l: "map label (processCSV pf (''0,0,0,b'' @ [CHR 0x0A] @ ''0,0,0,1'')) = [''b'', ''1'']"
    by (simp add: csv_eval)
  show "categories (load_text pf (''0,0,0,b'' @ [CHR 0x0A] @ ''0,0,0,1'') initial_state) = [''b'', ''1'']"
    unfolding load_text_def hd_categories l by (simp add: new_Set_def set_add_def)
  show "batch_order (processCSV pf (''0,0,0,b'' @ [CHR 0x0A] @ ''0,0,0,1'')) = Inr [''1'', ''b'']"
    by (simp add: csv_eval batch_order_def pointsByCategory_def group_point_def
        Object_entries_def is_array_index_def is_digit_def digit_value_def)
  show "batch_order (processCSV pf ''0,0,0,constructor'') = Inl TypeError"
    by (simp add: csv_eval batch_order_def pointsByCategory_def group_point_def)
qed

text \<open>
  C10, at a failing input. The text has the labels \<open>constructor\<close> and \<open>B\<close>. The parser
  reads \<open>categoryColors["constructor"]\<close> as the inherited member, which is truthy: it
  assigns no colour and does not advance its index, so the point labelled \<open>B\<close> gets the
  first palette colour, while the style of \<open>B\<close>, the second category, has the second.
\<close>

theorem point_color_differs_from_style_color:
  "map label (processCSV pf (''0,0,0,constructor'' @ [CHR 0x0A] @ ''0,0,0,B''))
     = [''constructor'', ''B''] \<and>
   map DataPoint.color (processCSV pf (''0,0,0,constructor'' @ [CHR 0x0A] @ ''0,0,0,B''))
     = [Inherited ''constructor'', Str ''#60a5fa''] \<and>
   map (style_color (categoryStyles
          (load_text pf (''0,0,0,constructor'' @ [CHR 0x0A] @ ''0,0,0,B'') initial_state)))
       [''constructor'', ''B'']
     = [Some ''#60a5fa'', Some ''#f87171'']"
proof (intro conjI)
  show l: "map label (processCSV pf (''0,0,0,constructor'' @ [CHR 0x0A] @ ''0,0,0,B''))
     = [''constructor'', ''B'']"
    by (simp add: csv_eval)
  show "map DataPoint.color (processCSV pf (''0,0,0,constructor'' @ [CHR 0x0A] @ ''0,0,0,B''))
     = [Inherited ''constructor'', Str ''#60a5fa'']"
    by (simp add: csv_eval)
  show "map (style_color (categoryStyles
          (load_text pf (''0,0,0,constructor'' @ [CHR 0x0A] @ ''0,0,0,B'') initial_state)))
       [''constructor'', ''B'']
     = [Some ''#60a5fa'', Some ''#f87171'']"
    unfolding load_text_def hd_styles l
    by (simp add: new_Set_def set_add_def set_style_def style_color_def get_style_def
        app_colorPalette_def)
qed

text \<open>
  C8, at a failing input. The text has the distinct labels \<open>constructor\<close> and \<open>B\<close>, in
  this order. The parser gives the first of them, label 0, no palette colour, and the
  second, label 1, the palette colour 0, where the claim has the colours 0 and 1: the
  test \<open>!categoryColors[label]\<close> finds the inherited member for \<open>constructor\<close>, so that
  label is not counted as newly seen.
\<close>

theorem parser_color_skips_inherited_label:
  "first_occurrences (map label (processCSV pf (''0,0,0,constructor'' @ [CHR 0x0A] @ ''0,0,0,B'')))
     = [''constructor'', ''B''] \<and>
   DataPoint.color (processCSV pf (''0,0,0,constructor'' @ [CHR 0x0A] @ ''0,0,0,B'') ! 0)
     = Inherited ''constructor'' \<and>
   DataPoint.color (processCSV pf (''0,0,0,constructor'' @ [CHR 0x0A] @ ''0,0,0,B'') ! 1)
     = Str (upload_colorPalette ! (0 mod 10)) \<and>
   upload_colorPalette ! (0 mod 10) \<noteq> upload_colorPalette ! (1 mod 10)"
proof (intro conjI)
  have l: "map label (processCSV pf (''0,0,0,constructor'' @ [CHR 0x0A] @ ''0,0,0,B''))
     = [''constructor'', ''B'']"
    by (simp add: csv_eval)
  show "first_occurrences (map label (processCSV pf (''0,0,0,constructor'' @ [CHR 0x0A] @ ''0,0,0,B'')))
     = [''constructor'', ''B'']"
    unfolding l by simp
  show "DataPoint.color (processCSV pf (''0,0,0,constructor'' @ [CHR 0x0A] @ ''0,0,0,B'') ! 0)
     = Inherited ''constructor''"
    by (simp add: csv_eval)
  show "DataPoint.color (processCSV pf (''0,0,0,constructor'' @ [CHR 0x0A] @ ''0,0,0,B'') ! 1)
     = Str (upload_colorPalette ! (0 mod 10))"
    by (simp add: csv_eval)
  show "upload_colorPalette ! (0 mod 10) \<noteq> upload_colorPalette ! (1 mod 10)"
    by (simp add: upload_colorPalette_def)
qed

subsection \<open>Timers and the hover state machine\<close>

lemma fold_fire_fields:
  "hoveredPoint (fold (\<lambda>tm. fire (action tm)) tms s) =
     (if \<exists>tm \<in> set tms. action tm = ClearHover then None else hoveredPoint s)"
  "screenshotTrigger (fold (\<lambda>tm. fire (action tm)) tms s) =
     (if \<exists>tm \<in> set tms. action tm = ResetTrigger then False else screenshotTrigger s)"
  "timers (fold (\<lambda>tm. fire (action tm)) tms s) = timers s"
  "next_timer (fold (\<lambda>tm. fire (action tm)) tms s) = next_timer s"
  "hoverTimeout (fold (\<lambda>tm. fire (action tm)) tms s) = hoverTimeout s"
  "selectedPoint (fold (\<lambda>tm. fire (action tm)) tms s) = selectedPoint s"
  by (induction tms arbitrary: s; simp add: fire_def split: timer_action.splits)+

lemma advance_hoveredPoint:
  "hoveredPoint (advance t s) =
     (if \<exists>tm \<in> set (pending_clears s). deadline tm \<le> t then None else hoveredPoint s)"
  by (auto simp: advance_def Let_def fold_fire_fields pending_clears_def)

lemma advance_fields:
  "timers (advance t s) = filter (\<lambda>tm. \<not> deadline tm \<le> t) (timers s)"
  "next_timer (advance t s) = next_timer s"
  "hoverTimeout (advance t s) = hoverTimeout s"
  "now (advance t s) = max (now s) t"
  "selectedPoint (advance t s) = selectedPoint s"
  by (simp_all add: advance_def Let_def fold_fire_fields)

lemma advance_pending_clears:
  "pending_clears (advance t s) = filter (\<lambda>tm. \<not> deadline tm \<le> t) (pending_clears s)"
  by (auto simp: pending_clears_def advance_fields intro: filter_cong)

lemma handleHover_hit:
  "hoveredPoint (handleHover (Some p) s) = Some p"
  "now (handleHover (Some p) s) = now s"
  "next_timer (handleHover (Some p) s) = next_timer s"
  "hoverTimeout (handleHover (Some p) s) = hoverTimeout s"
  by (simp_all add: handleHover_def Let_def window_clearTimeout_def split: option.splits)

lemma handleHover_hit_clears:
  "hover_inv s \<Longrightarrow> pending_clears (handleHover (Some p) s) = []"
  by (auto simp: handleHover_def Let_def window_clearTimeout_def hover_inv_def pending_clears_def
      filter_empty_conv split: option.splits)

lemma handleHover_miss:
  "hoveredPoint (handleHover None s) = hoveredPoint s"
  "now (handleHover None s) = now s"
  "next_timer (handleHover None s) = Suc (next_timer s)"
  "hoverTimeout (handleHover None s) = Some (next_timer s)"
  by (simp_all add: handleHover_def Let_def window_clearTimeout_def window_setTimeout_def
      split: option.splits)

lemma handleHover_miss_clears_subset:
  "set (pending_clears (handleHover None s)) \<subseteq>
     insert (Timer (next_timer s) (now s + 50) ClearHover) (set (pending_clears s))"
  by (auto simp: handleHover_def Let_def window_clearTimeout_def window_setTimeout_def
      pending_clears_def split: option.splits if_splits)

lemma handleHover_miss_clears:
  "hover_inv s \<Longrightarrow>
   pending_clears (handleHover None s) = [Timer (next_timer s) (now s + 50) ClearHover]"
  by (auto simp: handleHover_def Let_def window_clearTimeout_def window_setTimeout_def
      hover_inv_def pending_clears_def filter_empty_conv split: option.splits)

lemma hover_inv_initial: "hover_inv initial_vis"
  by (simp add: hover_inv_def initial_vis_def pending_clears_def)

lemma hover_inv_handleHover: "hover_inv s \<Longrightarrow> hover_inv (handleHover point s)"
proof (cases point)
  case None
  assume "hover_inv s"
  then show ?thesis
    unfolding None by (simp add: hover_inv_def [of "handleHover None s"] handleHover_miss_clears
        handleHover_miss hover_inv_def [of s])
next
  case (Some p)
  assume "hover_inv s"
  then show ?thesis
    unfolding Some by (simp add: hover_inv_def [of "handleHover (Some p) s"] handleHover_hit_clears
        handleHover_hit hover_inv_def [of s])
qed

lemma hover_inv_advance: "hover_inv s \<Longrightarrow> hover_inv (advance t s)"
  by (simp add: hover_inv_def advance_pending_clears advance_fields)

lemma hover_inv_takeScreenshot: "hover_inv s \<Longrightarrow> hover_inv (snd (takeScreenshot s))"
  by (simp add: hover_inv_def takeScreenshot_def window_setTimeout_def pending_clears_def)

lemma hover_inv_capture:
  "hover_inv s \<Longrightarrow> SceneCapture_effect r stamp s = Inr s' \<Longrightarrow> hover_inv s'"
  by (auto simp: SceneCapture_effect_def handleCapture_def hover_inv_def pending_clears_def
      split: if_splits sum.splits)

lemma reachable_hover_inv: "reachable s \<Longrightarrow> hover_inv s"
proof (induction rule: reachable.induct)
  case init
  show ?case by (rule hover_inv_initial)
next
  case (hover s point)
  then show ?case by (simp add: hover_inv_handleHover)
next
  case (time s t)
  then show ?case by (simp add: hover_inv_advance)
next
  case (select s point)
  then show ?case by (simp add: hover_inv_def setSelectedPoint_def pending_clears_def)
next
  case (shot s)
  then show ?case by (simp add: hover_inv_takeScreenshot)
next
  case (capture s r stamp s')
  then show ?case by (simp add: hover_inv_capture)
qed

lemma in_window_miss:
  assumes "in_window t1 p s" and "t < t1 + 50"
  shows "in_window t1 p (report_at t None s)"
proof -
  from assms have a: "in_window t1 p (advance t s)"
    by (auto simp: in_window_def advance_hoveredPoint advance_pending_clears advance_fields)
  have "\<forall>tm \<in> set (pending_clears (handleHover None (advance t s))). t1 + 50 \<le> deadline tm"
  proof
    fix tm assume "tm \<in> set (pending_clears (handleHover None (advance t s)))"
    with handleHover_miss_clears_subset [of "advance t s"]
    have "tm = Timer (next_timer (advance t s)) (now (advance t s) + 50) ClearHover \<or>
          tm \<in> set (pending_clears (advance t s))" by auto
    with a show "t1 + 50 \<le> deadline tm" by (auto simp: in_window_def)
  qed
  with a show ?thesis by (simp add: in_window_def report_at_def handleHover_miss)
qed

lemma in_window_misses:
  "in_window t1 p s \<Longrightarrow> \<forall>t \<in> set ts. t < t1 + 50 \<Longrightarrow> in_window t1 p (misses_at ts s)"
  by (induction ts arbitrary: s) (simp_all add: in_window_miss)

lemma in_window_hit: "hover_inv s \<Longrightarrow> in_window t1 p (report_at t1 (Some p) s)"
  by (simp add: in_window_def report_at_def handleHover_hit handleHover_hit_clears
      hover_inv_advance advance_fields)

lemma polled_misses:
  "hover_inv s \<Longrightarrow> hoveredPoint s = Some p \<Longrightarrow>
   \<forall>tm \<in> set (pending_clears s). d \<le> deadline tm \<Longrightarrow> polled d ts \<Longrightarrow>
   hoveredPoint (misses_at ts s) = Some p"
proof (induction ts arbitrary: s d)
  case Nil
  then show ?case by simp
next
  case (Cons t ts)
  let ?a = "advance t s" and ?s = "report_at t None s"
  from Cons.prems have t: "t < d" and rest: "polled (t + 50) ts" by simp_all
  from Cons.prems(1) have ia: "hover_inv ?a" by (rule hover_inv_advance)
  then have i: "hover_inv ?s" by (simp add: report_at_def hover_inv_handleHover)
  from Cons.prems(2,3) t have h: "hoveredPoint ?s = Some p"
    by (auto simp: report_at_def handleHover_miss advance_hoveredPoint)
  have "\<forall>tm \<in> set (pending_clears ?s). t + 50 \<le> deadline tm"
    by (simp add: report_at_def handleHover_miss_clears [OF ia] advance_fields)
  from Cons.IH [OF i h this rest] show ?case by simp
qed

lemma polled_after_hit:
  assumes "reachable s" and "polled d ts"
  shows "hoveredPoint (misses_at ts (handleHover (Some p) s)) = Some p"
proof -
  from assms(1) have inv: "hover_inv s" by (rule reachable_hover_inv)
  then have i: "hover_inv (handleHover (Some p) s)" by (rule hover_inv_handleHover)
  have c: "\<forall>tm \<in> set (pending_clears (handleHover (Some p) s)). d \<le> deadline tm"
    by (simp add: handleHover_hit_clears [OF inv])
  from polled_misses [OF i _ c assms(2)] show ?thesis by (simp add: handleHover_hit)
qed

text \<open>
  What the hover state machine does, in every state the component can reach: a hit
  sets the hover at once and cancels the pending clear, so that the hover then stays
  set for as long as no other report comes; after a hit at \<open>t1\<close>, with any misses
  inside the window of 50 ms that follows, the hover is that point at every time of
  the window, so it is never null between two hits of one window; after a miss, if no
  other report (hit or miss) follows, the hover keeps its value until 50 ms after the
  miss and is null from then on; and the hover stays set through any run of misses
  that come less than 50 ms one after the other.
\<close>

lemma hover_debounce:
  assumes "reachable s"
  shows "hoveredPoint (handleHover (Some p) s) = Some p \<and>
         (\<forall>t. hoveredPoint (advance t (handleHover (Some p) s)) = Some p) \<and>
         ((\<forall>t \<in> set ts. t < t1 + 50) \<longrightarrow>
          (\<forall>t < t1 + 50.
             hoveredPoint (advance t (misses_at ts (report_at t1 (Some p) s))) = Some p)) \<and>
         (\<forall>t. hoveredPoint (advance t (handleHover None s)) =
                (if t < now s + 50 then hoveredPoint s else None)) \<and>
         (polled d ts' \<longrightarrow> hoveredPoint (misses_at ts' (handleHover (Some p) s)) = Some p)"
proof -
  from assms have inv: "hover_inv s" by (rule reachable_hover_inv)
  have 1: "hoveredPoint (handleHover (Some p) s) = Some p"
    by (simp add: handleHover_hit)
  have 2: "\<forall>t. hoveredPoint (advance t (handleHover (Some p) s)) = Some p"
    by (simp add: advance_hoveredPoint handleHover_hit handleHover_hit_clears [OF inv])
  have 3: "(\<forall>t \<in> set ts. t < t1 + 50) \<longrightarrow>
          (\<forall>t < t1 + 50.
             hoveredPoint (advance t (misses_at ts (report_at t1 (Some p) s))) = Some p)"
  proof (intro impI allI)
    fix t assume ts: "\<forall>t \<in> set ts. t < t1 + 50" and t: "t < t1 + 50"
    from in_window_misses [OF in_window_hit [OF inv] ts]
    have "in_window t1 p (misses_at ts (report_at t1 (Some p) s))" .
    with t show "hoveredPoint (advance t (misses_at ts (report_at t1 (Some p) s))) = Some p"
      by (auto simp: in_window_def advance_hoveredPoint)
  qed
  have 4: "\<forall>t. hoveredPoint (advance t (handleHover None s)) =
                (if t < now s + 50 then hoveredPoint s else None)"
    by (auto simp: advance_hoveredPoint handleHover_miss handleHover_miss_clears [OF inv])
  have 5: "polled d ts' \<longrightarrow> hoveredPoint (misses_at ts' (handleHover (Some p) s)) = Some p"
    using polled_after_hit [OF assms] by blast
  from 1 2 3 4 5 show ?thesis by blast
qed

lemmas hover_eval =
  report_at_def advance_def handleHover_def window_setTimeout_def window_clearTimeout_def
  initial_vis_def fire_def Let_def

lemma hover_debounce_example:
  "hoveredPoint (advance 49 (misses_at [16, 32]
      (report_at 0 (Some (point_labelled ''a'')) initial_vis))) = Some (point_labelled ''a'') \<and>
   hoveredPoint (advance 66 (handleHover None
      (advance 16 (handleHover (Some (point_labelled ''a'')) initial_vis)))) = None \<and>
   hoveredPoint (misses_at [16, 32, 48, 64, 80]
      (handleHover (Some (point_labelled ''a'')) initial_vis)) = Some (point_labelled ''a'')"
proof -
  have r: "reachable (advance 16 (handleHover (Some (point_labelled ''a'')) initial_vis))"
    by (intro reachable.intros)
  have n: "now (advance 16 (handleHover (Some (point_labelled ''a'')) initial_vis)) = 16"
    by (simp add: hover_eval)
  from hover_debounce [OF reachable.init, of "point_labelled ''a''" "[16, 32]" 0 17
      "[16, 32, 48, 64, 80]"]
  have "hoveredPoint (advance 49 (misses_at [16, 32]
      (report_at 0 (Some (point_labelled ''a'')) initial_vis))) = Some (point_labelled ''a'') \<and>
    hoveredPoint (misses_at [16, 32, 48, 64, 80]
      (handleHover (Some (point_labelled ''a'')) initial_vis)) = Some (point_labelled ''a'')"
    by simp
  moreover from hover_debounce [OF r, of "point_labelled ''a''" "[]" 0 0 "[]"]
  have "hoveredPoint (advance 66 (handleHover None
      (advance 16 (handleHover (Some (point_labelled ''a'')) initial_vis)))) = None"
    by (simp add: n)
  ultimately show ?thesis by simp
qed

text \<open>
  C4, at a failing input. A hit at 0 is followed by a miss in every frame, 16 ms
  apart, from 16 to 160, and by no hit. Every miss cancels the clear that the miss
  before it armed and arms a new one, so none of them runs: the hover is still set at
  66, which is 50 ms after the first miss, and after the last miss, at 160. The claim
  has one transition to null, 50 ms after the first miss.
\<close>

theorem hover_stuck_under_polling:
  "hoveredPoint (advance 66 (misses_at [16, 32, 48, 64]
      (report_at 0 (Some (point_labelled ''a'')) initial_vis))) = Some (point_labelled ''a'') \<and>
   hoveredPoint (misses_at [16, 32, 48, 64, 80, 96, 112, 128, 144, 160]
      (report_at 0 (Some (point_labelled ''a'')) initial_vis)) = Some (point_labelled ''a'') \<and>
   pending_clears (misses_at [16, 32, 48, 64, 80, 96, 112, 128, 144, 160]
      (report_at 0 (Some (point_labelled ''a'')) initial_vis)) = [Timer 10 210 ClearHover]"
  by (simp add: hover_eval pending_clears_def)

subsection \<open>Picking across batches\<close>













lemmas frame_eval =
  frame_def frame_reports_def CategoryPoints_useFrame_def batch_of_one_def nth_opt_def
  handleHover_def initial_vis_def Let_def



subsection \<open>Invisible categories\<close>

lemma useFrame_points:
  "Some p \<in> set (CategoryPoints_useFrame b) \<Longrightarrow> visible (style b) \<and> p \<in> set (batch_points b)"
  by (auto simp: CategoryPoints_useFrame_def nth_opt_def split: if_splits list.splits option.splits)

text \<open>
  What the two guards on \<open>style.visible\<close> do: a batch whose style is not visible
  renders nothing and makes no hover report, neither a hit nor a miss, whatever the ray
  would intersect in it: the frame runs as if the batch were not there. Hence every
  point reported in a frame is a point of a visible batch, and a frame in which the ray
  intersects points of invisible batches only makes no hit report.
\<close>

lemma invisible_not_rendered_not_picked:
  "(\<not> visible (style b) \<longrightarrow>
      CategoryPoints_render fround b = None \<and> CategoryPoints_useFrame b = [] \<and>
      frame (bs @ b # bs') s = frame (bs @ bs') s) \<and>
   (\<forall>p. Some p \<in> set (frame_reports cs) \<longrightarrow>
      (\<exists>c \<in> set cs. visible (style c) \<and> p \<in> set (batch_points c))) \<and>
   ((\<forall>c \<in> set cs. visible (style c) \<longrightarrow> intersects c = []) \<longrightarrow>
      (\<forall>r \<in> set (frame_reports cs). r = None))"
proof (intro conjI impI allI)
  assume "\<not> visible (style b)"
  then show "CategoryPoints_render fround b = None" "CategoryPoints_useFrame b = []"
    "frame (bs @ b # bs') s = frame (bs @ bs') s"
    by (simp_all add: CategoryPoints_render_def CategoryPoints_useFrame_def frame_def
        frame_reports_def)
next
  fix p assume "Some p \<in> set (frame_reports cs)"
  then show "\<exists>c \<in> set cs. visible (style c) \<and> p \<in> set (batch_points c)"
    by (auto simp: frame_reports_def dest: useFrame_points)
next
  assume "\<forall>c \<in> set cs. visible (style c) \<longrightarrow> intersects c = []"
  then show "\<forall>r \<in> set (frame_reports cs). r = None"
    by (auto simp: frame_reports_def CategoryPoints_useFrame_def split: if_splits)
qed

text \<open>
  C6, at a failing input. Category \<open>a\<close> has one point, under the pointer: the frame
  sets the hover to it. Then the style of \<open>a\<close> is made invisible, the pointer where
  it was. The callback of the batch now returns before it reports anything, a miss
  no more than a hit, so the hover stays on the hidden point and its tooltip stays in
  the render output: after frames at 16, 32 and 48, still at 1000. It is so too with
  a visible batch \<open>b\<close> that the ray misses in every frame: each of its misses cancels
  the clear that the miss before it armed. The claim has no hit reported for the
  hidden point.
\<close>

theorem hidden_point_stays_hovered:
  "hoveredPoint (frame [batch_of_one ''a'' True 1] initial_vis) = Some (point_labelled ''a'') \<and>
   frame_reports [batch_of_one ''a'' False 1] = [] \<and>
   hoveredPoint
     (advance 1000 (frames_at [16, 32, 48] [batch_of_one ''a'' False 1]
        (frame [batch_of_one ''a'' True 1] initial_vis))) = Some (point_labelled ''a'') \<and>
   render_overlays
     (advance 1000 (frames_at [16, 32, 48] [batch_of_one ''a'' False 1]
        (frame [batch_of_one ''a'' True 1] initial_vis))) = [HoverTooltip (point_labelled ''a'')] \<and>
   hoveredPoint
     (frames_at [16, 32, 48, 64, 80] [batch_of_one ''a'' False 1, batch_missed ''b'']
        (frame [batch_of_one ''a'' True 1] initial_vis)) = Some (point_labelled ''a'')"
  by (simp add: frame_eval batch_missed_def advance_def fire_def window_setTimeout_def
      window_clearTimeout_def render_overlays_def)

subsection \<open>Overlays\<close>

text \<open>
  C7. The hover tooltip is in the render output only when the hover is set, nothing
  is selected and the capture trigger is off; while the trigger is on, neither the
  tooltip nor the detail panel is in the render output, and \<open>takeScreenshot\<close> turns the
  trigger on.
\<close>

theorem overlays_hidden:
  "(HoverTooltip p \<in> set (render_overlays s) \<longrightarrow>
      hoveredPoint s = Some p \<and> selectedPoint s = None \<and> \<not> screenshotTrigger s) \<and>
   (screenshotTrigger s \<longrightarrow> render_overlays s = []) \<and>
   render_overlays (snd (takeScreenshot s)) = []"
  by (auto simp: render_overlays_def takeScreenshot_def window_setTimeout_def
      split: option.splits if_splits)

theorem overlays_hidden_witness:
  "render_overlays (initial_vis\<lparr>hoveredPoint := Some (point_labelled ''a'')\<rparr>)
     = [HoverTooltip (point_labelled ''a'')] \<and>
   render_overlays (initial_vis\<lparr>hoveredPoint := Some (point_labelled ''a''),
                                 selectedPoint := Some (point_labelled ''b''),
                                 screenshotTrigger := True\<rparr>) = []"
  using overlays_hidden [of "point_labelled ''a''"
          "initial_vis\<lparr>hoveredPoint := Some (point_labelled ''a'')\<rparr>"]
        overlays_hidden [of "point_labelled ''a''"
          "initial_vis\<lparr>hoveredPoint := Some (point_labelled ''a''),
                        selectedPoint := Some (point_labelled ''b''),
                        screenshotTrigger := True\<rparr>"]
  by (simp add: render_overlays_def initial_vis_def)

subsection \<open>Marker textures\<close>

text \<open>
  C2, as amended. Each batch memoises the texture of its current shape: a request
  with the shape of the memo cell returns the texture of the cell and creates no
  canvas; a request with another shape, or from a batch with an empty cell, draws on a
  new canvas. What is drawn, and the size of 64 by 64, depend on the shape only.
\<close>

theorem texture_memo_per_batch:
  "useMemo_texture (Some (sh, t)) sh n = (t, Some (sh, t), n) \<and>
   (dep \<noteq> sh \<longrightarrow>
      useMemo_texture (Some (dep, t)) sh n =
        (fst (createShapeTexture sh n), Some (sh, fst (createShapeTexture sh n)), Suc n)) \<and>
   useMemo_texture None sh n =
     (fst (createShapeTexture sh n), Some (sh, fst (createShapeTexture sh n)), Suc n) \<and>
   canvas (fst (createShapeTexture sh n)) = n \<and>
   drawn (fst (createShapeTexture sh n)) = drawn (fst (createShapeTexture sh m)) \<and>
   width (fst (createShapeTexture sh n)) = 64 \<and> height (fst (createShapeTexture sh n)) = 64"
  by (simp add: useMemo_texture_def createShapeTexture_def)

theorem texture_memo_per_batch_witness:
  "fst (snd (useMemo_texture (Some (Circle, fst (createShapeTexture Circle 0))) Square 1))
     = Some (Square, fst (createShapeTexture Square 1)) \<and>
   snd (snd (useMemo_texture (Some (Circle, fst (createShapeTexture Circle 0))) Square 1)) = 2"
  using texture_memo_per_batch [of Square "fst (createShapeTexture Circle 0)" 1 Circle 0]
  by simp

text \<open>
  The claim as it was first stated fails: two batches with the shape \<open>circle\<close>, each
  with its own empty memo cell, get textures on two different canvases; two canvases
  are drawn for one shape.
\<close>

theorem texture_not_cached_counterexample:
  "canvas (fst (useMemo_texture None Circle 0)) = 0 \<and>
   canvas (fst (useMemo_texture None Circle (snd (snd (useMemo_texture None Circle 0))))) = 1 \<and>
   snd (snd (useMemo_texture None Circle (snd (snd (useMemo_texture None Circle 0))))) = 2"
  by (simp add: useMemo_texture_def createShapeTexture_def)

subsection \<open>Capture\<close>

text \<open>
  C3, as amended. \<open>takeScreenshot\<close> returns nothing: it turns the trigger on and arms
  its reset after 100 ms. The capture runs in the effect that follows. If
  \<open>toDataURL\<close> throws, the exception leaves the effect, uncaught, and nothing is
  downloaded; otherwise one download starts, named after the time stamp, of whatever
  \<open>toDataURL\<close> returned.
\<close>

theorem capture_failure_not_surfaced:
  "SceneCapture_effect (Inl e) stamp (snd (takeScreenshot s)) = Inl e \<and>
   SceneCapture_effect (Inr url) stamp (snd (takeScreenshot s)) =
     Inr ((snd (takeScreenshot s))
            \<lparr>downloads := downloads s @
               [\<lparr>file_name = ''VoxNavigator-3D-'' @ stamp @ ''.png'',
                 href = replace_first ''image/png'' ''image/octet-stream'' url\<rparr>]\<rparr>) \<and>
   takeScreenshot s =
     ((), s\<lparr>screenshotTrigger := True,
            timers := timers s @ [Timer (next_timer s) (now s + 100) ResetTrigger],
            next_timer := Suc (next_timer s)\<rparr>)"
  by (simp add: SceneCapture_effect_def handleCapture_def takeScreenshot_def
      window_setTimeout_def)

text \<open>
  The claim as it was first stated fails. When \<open>toDataURL\<close> throws, the capture
  effect ends with that exception: nothing catches it, and \<open>takeScreenshot\<close> has
  returned before. When the encoding fails without an exception, \<open>toDataURL\<close>
  returns \<open>data:,\<close>, and that is downloaded as if it were the image.
\<close>

theorem capture_failure_counterexample:
  "SceneCapture_effect (Inl SecurityError) ''0'' (snd (takeScreenshot initial_vis))
     = Inl SecurityError \<and>
   SceneCapture_effect (Inr ''data:,'') ''0'' (snd (takeScreenshot initial_vis)) =
     Inr ((snd (takeScreenshot initial_vis))
            \<lparr>downloads := [\<lparr>file_name = ''VoxNavigator-3D-0.png'', href = ''data:,''\<rparr>]\<rparr>)"
  by (simp add: SceneCapture_effect_def handleCapture_def takeScreenshot_def
      window_setTimeout_def initial_vis_def)

end
